theory Spec2Isabelle
  imports Main
begin

section \<open>The service worker \<open>sw.js\<close>: data model\<close>

text \<open>
  The worker is a set of event handlers over two host facilities: the cache storage
  (\<open>caches\<close>) and the network (\<open>fetch\<close>). Strings are character lists; every string the
  source compares is ASCII.
\<close>

definition CACHE_NAME :: string where
  "CACHE_NAME = ''vivomas-v1.0.0''"

definition STATIC_CACHE :: string where
  "STATIC_CACHE = ''vivomas-static-v1''"

definition DYNAMIC_CACHE :: string where
  "DYNAMIC_CACHE = ''vivomas-dynamic-v1''"

definition STATIC_ASSETS :: "string list" where
  "STATIC_ASSETS =
     [''/'',
      ''/index.html'',
      ''/src/main.jsx'',
      ''/src/App.jsx'',
      ''/src/App.css'',
      ''/src/index.css'',
      ''/logo-vivomas-transparente.png'',
      ''/Logo-Vivo-Mas-Icono.png'',
      ''/logo-vivomas-2.png'',
      ''/manifest.json'']"

definition PRODUCT_IMAGES :: "string list" where
  "PRODUCT_IMAGES =
     [''/productos/citrato_magnesio.png'',
      ''/productos/citrato_potasio.png'',
      ''/productos/vitamina_d3.png'',
      ''/productos/colageno_hidrolizado.png'',
      ''/productos/blistex_variedades.png'',
      ''/productos/test_embarazo_cassette.png'']"

definition BRANCH_IMAGES :: "string list" where
  "BRANCH_IMAGES =
     [''/sucursal_castellon.jpg'',
      ''/sucursal_ohiggins.jpg'',
      ''/sucursal_chillan.jpg'',
      ''/sucursal_yumbel.jpg'',
      ''/sucursal_rengo.png'']"

record response =
  status :: nat
  headers :: "(string \<times> string) list"
  body :: string

text \<open>\<open>Response.ok\<close>: the status is in the range 200 to 299.\<close>

definition ok :: "response \<Rightarrow> bool" where
  "ok r = (200 \<le> status r \<and> status r \<le> 299)"

text \<open>
  A request as the handlers read it: \<open>request.method\<close> (the field \<open>method_req\<close>),
  \<open>request.url\<close> and \<open>request.headers.get('accept')\<close>, which is \<open>null\<close> (here
  \<open>None\<close>) when the header is absent.
\<close>

record request =
  method_req :: string
  url :: string
  accept :: "string option"

section \<open>String utilities\<close>

text \<open>\<open>String.prototype.startsWith\<close> and \<open>String.prototype.includes\<close>.\<close>

fun startsWith :: "string \<Rightarrow> string \<Rightarrow> bool" where
  "startsWith s [] = True"
| "startsWith [] (c # cs) = False"
| "startsWith (d # ds) (c # cs) = (d = c \<and> startsWith ds cs)"

fun includes_str :: "string \<Rightarrow> string \<Rightarrow> bool" where
  "includes_str [] sub = (sub = [])"
| "includes_str (c # cs) sub = (startsWith (c # cs) sub \<or> includes_str cs sub)"

text \<open>\<open>String.prototype.endsWith\<close>, for the suffix reading of an extension rule.\<close>

definition endsWith :: "string \<Rightarrow> string \<Rightarrow> bool" where
  "endsWith s suf = startsWith (rev s) (rev suf)"

section \<open>Request classification (\<open>isStaticAsset\<close>, \<open>isImage\<close>, \<open>isExternalAPI\<close>)\<close>

definition isStaticAsset :: "string \<Rightarrow> bool" where
  "isStaticAsset u =
     (list_ex (\<lambda>asset. includes_str u asset) STATIC_ASSETS \<or>
      includes_str u ''.css'' \<or>
      includes_str u ''.js'' \<or>
      includes_str u ''.woff'' \<or>
      includes_str u ''.woff2'')"

definition isImage :: "string \<Rightarrow> bool" where
  "isImage u =
     (includes_str u ''.jpg'' \<or>
      includes_str u ''.jpeg'' \<or>
      includes_str u ''.png'' \<or>
      includes_str u ''.webp'' \<or>
      includes_str u ''.svg'' \<or>
      includes_str u ''/productos/'' \<or>
      includes_str u ''/sucursal_'' \<or>
      includes_str u ''/convenios/'')"

definition isExternalAPI :: "string \<Rightarrow> bool" where
  "isExternalAPI u =
     (includes_str u ''wa.me'' \<or>
      includes_str u ''google.com/maps'' \<or>
      includes_str u ''facebook.com'' \<or>
      includes_str u ''instagram.com'' \<or>
      includes_str u ''googleapis.com'')"

text \<open>
  \<open>request.headers.get('accept')?.includes('text/html')\<close>: the optional chaining makes
  the test falsy when the header is absent.
\<close>

definition acceptsHtml :: "request \<Rightarrow> bool" where
  "acceptsHtml req = (case accept req of None \<Rightarrow> False | Some a \<Rightarrow> includes_str a ''text/html'')"

text \<open>
  The five branches of the fetch handler behind the method guard, in the order of the
  source, named after the resource class each one serves.
\<close>

datatype resource_class = StaticAsset | Image | Document | ExternalAPI | Other

definition classify :: "request \<Rightarrow> resource_class" where
  "classify req =
     (if isStaticAsset (url req) then StaticAsset
      else if isImage (url req) then Image
      else if acceptsHtml req then Document
      else if isExternalAPI (url req) then ExternalAPI
      else Other)"

section \<open>Host facilities: cache storage and network\<close>

text \<open>
  A cache generation maps a request key to a stored response; only \<open>GET\<close> requests reach
  the strategies, so the key is the request URL. The cache storage lists the generations
  by name in creation order, which is the order \<open>caches.keys()\<close> reports and
  \<open>caches.match\<close> searches. Storage operations are taken to succeed.
\<close>

type_synonym cache = "string \<rightharpoonup> response"

type_synonym cache_storage = "(string \<times> cache) list"

datatype reply = VersionReply string | SuccessReply

text \<open>The calls the worker makes on its host, recorded in the order they are issued.\<close>

datatype host_call =
    CachesOpen string
  | CachesMatch string
  | CachesKeys
  | CachesDelete string
  | CachePut string string
  | CacheAddAll string "string list"
  | Fetch string
  | SetTimeout nat
  | SkipWaiting
  | ClientsClaim
  | PostMessage reply

text \<open>
  A \<open>cache.put\<close> whose promise the worker does not await has been issued but need not
  have taken effect when the caller goes on: it is kept in \<open>pending\<close>, as generation
  name, key and response, until the host settles it.
\<close>

record sw_state =
  caches :: cache_storage
  trace :: "host_call list"
  pending :: "(string \<times> string \<times> response) list"

text \<open>
  The network: a fetch of a URL settles after some milliseconds, either with a response
  (of any status) or with a rejection. \<open>origin\<close> is the origin of the worker's own
  location, against which a path such as \<open>'/'\<close> is resolved; \<open>timer_wins_tie\<close> says
  which of a timer and a fetch that fall due at the same millisecond the host runs first.
\<close>

datatype net_outcome = Responds nat response | Fails nat

record env =
  origin :: string
  net :: "string \<Rightarrow> net_outcome"
  timer_wins_tie :: bool

definition settled :: "net_outcome \<Rightarrow> response option" where
  "settled out = (case out of Responds t r \<Rightarrow> Some r | Fails t \<Rightarrow> None)"

definition resolve :: "env \<Rightarrow> string \<Rightarrow> string" where
  "resolve e path = origin e @ path"

definition record_call :: "host_call \<Rightarrow> sw_state \<Rightarrow> sw_state" where
  "record_call c st = st\<lparr>trace := trace st @ [c]\<rparr>"

text \<open>\<open>caches.match(key)\<close>: the first generation, in creation order, that holds the key.\<close>

fun caches_match :: "cache_storage \<Rightarrow> string \<Rightarrow> response option" where
  "caches_match [] k = None"
| "caches_match ((n, c) # cs) k = (case c k of Some r \<Rightarrow> Some r | None \<Rightarrow> caches_match cs k)"

text \<open>\<open>caches.open(name)\<close> creates the generation when it does not exist yet.\<close>

definition caches_open :: "string \<Rightarrow> cache_storage \<Rightarrow> cache_storage" where
  "caches_open name cs = (if name \<in> set (map fst cs) then cs else cs @ [(name, Map.empty)])"

text \<open>\<open>cache.put(key, response)\<close> on the generation \<open>name\<close> overwrites the entry of the key.\<close>

definition cache_put :: "string \<Rightarrow> string \<Rightarrow> response \<Rightarrow> cache_storage \<Rightarrow> cache_storage" where
  "cache_put name k r cs = map (\<lambda>(n, c). if n = name then (n, c(k \<mapsto> r)) else (n, c)) cs"

text \<open>\<open>cache.match(key)\<close> on the generation \<open>name\<close> alone.\<close>

definition cache_get :: "string \<Rightarrow> string \<Rightarrow> cache_storage \<Rightarrow> response option" where
  "cache_get name k cs = (case map_of cs name of None \<Rightarrow> None | Some c \<Rightarrow> c k)"

definition caches_keys :: "cache_storage \<Rightarrow> string list" where
  "caches_keys cs = map fst cs"

definition caches_delete :: "string \<Rightarrow> cache_storage \<Rightarrow> cache_storage" where
  "caches_delete name cs = filter (\<lambda>(n, c). n \<noteq> name) cs"

definition open_cache :: "string \<Rightarrow> sw_state \<Rightarrow> sw_state" where
  "open_cache name st = (record_call (CachesOpen name) st)\<lparr>caches := caches_open name (caches st)\<rparr>"

text \<open>
  \<open>cache.put(request, response)\<close> called and not awaited: the call is recorded and the
  write is pending. \<open>settle_puts\<close> is the host completing every pending write, in the
  order of the calls.
\<close>

definition put_cache :: "string \<Rightarrow> string \<Rightarrow> response \<Rightarrow> sw_state \<Rightarrow> sw_state" where
  "put_cache name k r st =
     (record_call (CachePut name k) st)\<lparr>pending := pending st @ [(name, k, r)]\<rparr>"

definition apply_put :: "string \<times> string \<times> response \<Rightarrow> cache_storage \<Rightarrow> cache_storage" where
  "apply_put p cs = (case p of (name, k, r) \<Rightarrow> cache_put name k r cs)"

definition settle_puts :: "sw_state \<Rightarrow> sw_state" where
  "settle_puts st = st\<lparr>caches := fold apply_put (pending st) (caches st), pending := []\<rparr>"

definition delete_cache :: "string \<Rightarrow> sw_state \<Rightarrow> sw_state" where
  "delete_cache name st =
     (record_call (CachesDelete name) st)\<lparr>caches := caches_delete name (caches st)\<rparr>"

text \<open>
  \<open>cache.addAll(paths)\<close>: every path is resolved and fetched; if one fetch is rejected or
  answers with a status outside 200 to 299 the promise is rejected and nothing is stored,
  otherwise every response is stored under its URL.
\<close>

fun fetch_all :: "env \<Rightarrow> string list \<Rightarrow> (string \<times> response) list option" where
  "fetch_all e [] = Some []"
| "fetch_all e (p # ps) =
     (case settled (net e (resolve e p)) of
        None \<Rightarrow> None
      | Some r \<Rightarrow>
          if ok r then
            (case fetch_all e ps of
               None \<Rightarrow> None
             | Some rs \<Rightarrow> Some ((resolve e p, r) # rs))
          else None)"

definition addAll :: "env \<Rightarrow> string \<Rightarrow> string list \<Rightarrow> sw_state \<Rightarrow> bool \<times> sw_state" where
  "addAll e name paths st =
     (let st1 = record_call (CacheAddAll name paths) st
      in case fetch_all e paths of
           None \<Rightarrow> (False, st1)
         | Some rs \<Rightarrow>
             (True, st1\<lparr>caches := fold (\<lambda>(k, r). cache_put name k r) rs (caches st1)\<rparr>))"

section \<open>Lifecycle: install and activate\<close>

text \<open>
  The result of a phase is the promise handed to \<open>event.waitUntil\<close>: fulfilled or
  rejected. In the install handler both \<open>caches.open\<close> calls and \<open>self.skipWaiting()\<close>
  are issued before either \<open>addAll\<close> runs; the two \<open>addAll\<close> calls write to different
  generations, and \<open>Promise.all\<close> is fulfilled when both are.
\<close>

datatype phase_result = Completed | Failed

definition priming :: "string list" where
  "priming = take 3 PRODUCT_IMAGES @ take 2 BRANCH_IMAGES"

definition install :: "env \<Rightarrow> sw_state \<Rightarrow> phase_result \<times> sw_state" where
  "install e st =
     (let st1 = open_cache STATIC_CACHE st;
          st2 = open_cache DYNAMIC_CACHE st1;
          st3 = record_call SkipWaiting st2;
          (static_ok, st4) = addAll e STATIC_CACHE STATIC_ASSETS st3;
          (dynamic_ok, st5) = addAll e DYNAMIC_CACHE priming st4
      in (if static_ok \<and> dynamic_ok then Completed else Failed, st5))"

text \<open>
  The activate handler asks for the generation names once and maps over that list,
  deleting each name that is neither \<open>STATIC_CACHE\<close> nor \<open>DYNAMIC_CACHE\<close>.
\<close>

definition activate_step :: "string \<Rightarrow> sw_state \<Rightarrow> sw_state" where
  "activate_step cacheName st =
     (if cacheName \<noteq> STATIC_CACHE \<and> cacheName \<noteq> DYNAMIC_CACHE
      then delete_cache cacheName st else st)"

definition activate :: "sw_state \<Rightarrow> sw_state" where
  "activate st =
     (let st1 = record_call CachesKeys st;
          cacheNames = caches_keys (caches st1);
          st2 = record_call ClientsClaim st1
      in fold activate_step cacheNames st2)"

section \<open>The three strategies\<close>

definition unavailable_static :: response where
  "unavailable_static = \<lparr>status = 503, headers = [], body = ''Recurso no disponible offline''\<rparr>"

definition unavailable_content :: response where
  "unavailable_content =
     \<lparr>status = 503,
      headers = [(''Content-Type'', ''text/plain; charset=utf-8'')],
      body = ''Contenido no disponible offline''\<rparr>"

definition unavailable_service :: response where
  "unavailable_service = \<lparr>status = 503, headers = [], body = ''Servicio no disponible''\<rparr>"

text \<open>
  \<open>cacheFirst\<close> and \<open>networkFirst\<close> await \<open>caches.open\<close> and then call \<open>cache.put\<close>
  without awaiting it: when they return, the generation exists and the write is pending.
\<close>

definition cacheFirst :: "env \<Rightarrow> request \<Rightarrow> sw_state \<Rightarrow> response \<times> sw_state" where
  "cacheFirst e req st =
     (let st1 = record_call (CachesMatch (url req)) st
      in case caches_match (caches st1) (url req) of
           Some cachedResponse \<Rightarrow> (cachedResponse, st1)
         | None \<Rightarrow>
             (let st2 = record_call (Fetch (url req)) st1
              in case settled (net e (url req)) of
                   None \<Rightarrow> (unavailable_static, st2)
                 | Some networkResponse \<Rightarrow>
                     if ok networkResponse
                     then (networkResponse,
                           put_cache STATIC_CACHE (url req) networkResponse
                             (open_cache STATIC_CACHE st2))
                     else (networkResponse, st2)))"

definition networkFirst :: "env \<Rightarrow> request \<Rightarrow> sw_state \<Rightarrow> response \<times> sw_state" where
  "networkFirst e req st =
     (let st1 = record_call (Fetch (url req)) st
      in case settled (net e (url req)) of
           Some networkResponse \<Rightarrow>
             if ok networkResponse
             then (networkResponse,
                   put_cache DYNAMIC_CACHE (url req) networkResponse
                     (open_cache DYNAMIC_CACHE st1))
             else (networkResponse, st1)
         | None \<Rightarrow>
             (let st2 = record_call (CachesMatch (url req)) st1
              in case caches_match (caches st2) (url req) of
                   Some cachedResponse \<Rightarrow> (cachedResponse, st2)
                 | None \<Rightarrow>
                     if acceptsHtml req
                     then (let st3 = record_call (CachesMatch (resolve e ''/'')) st2
                           in case caches_match (caches st3) (resolve e ''/'') of
                                Some offlinePage \<Rightarrow> (offlinePage, st3)
                              | None \<Rightarrow> (unavailable_content, st3))
                     else (unavailable_content, st2)))"

text \<open>
  \<open>Promise.race([networkPromise, timeoutPromise])\<close>: the fetch wins when it settles
  before the timer is due; a rejected fetch and a timer that fires first both end in the
  \<open>catch\<close> block.
\<close>

definition race :: "env \<Rightarrow> net_outcome \<Rightarrow> nat \<Rightarrow> response option" where
  "race e out timeout =
     (case out of
        Fails t \<Rightarrow> None
      | Responds t r \<Rightarrow>
          if t < timeout \<or> (t = timeout \<and> \<not> timer_wins_tie e) then Some r else None)"

definition networkWithTimeout :: "env \<Rightarrow> request \<Rightarrow> nat \<Rightarrow> sw_state \<Rightarrow> response \<times> sw_state" where
  "networkWithTimeout e req timeout st =
     (let st1 = record_call (SetTimeout timeout) st;
          st2 = record_call (Fetch (url req)) st1
      in case race e (net e (url req)) timeout of
           Some r \<Rightarrow> (r, st2)
         | None \<Rightarrow> (unavailable_service, st2))"

section \<open>The fetch handler\<close>

text \<open>
  \<open>request.url\<close> is a serialised absolute URL, so \<open>new URL(request.url)\<close> does not throw;
  its value is not used. A handler that returns without \<open>event.respondWith\<close> leaves the
  request to the browser.
\<close>

datatype handled = NotIntercepted | RespondWith response

definition respondWith :: "response \<times> sw_state \<Rightarrow> handled \<times> sw_state" where
  "respondWith p = (RespondWith (fst p), snd p)"

definition fetch_handler :: "env \<Rightarrow> request \<Rightarrow> sw_state \<Rightarrow> handled \<times> sw_state" where
  "fetch_handler e req st =
     (if method_req req \<noteq> ''GET'' then (NotIntercepted, st)
      else if isStaticAsset (url req) then respondWith (cacheFirst e req st)
      else if isImage (url req) then respondWith (networkFirst e req st)
      else if acceptsHtml req then respondWith (networkFirst e req st)
      else if isExternalAPI (url req) then respondWith (networkWithTimeout e req 5000 st)
      else respondWith (networkFirst e req st))"

text \<open>
  The specification's table from resource class to strategy, to compare the handler with.
\<close>

datatype strategy = CacheFirst | NetworkFirst | NetworkWithTimeout nat

fun spec_strategy :: "resource_class \<Rightarrow> strategy" where
  "spec_strategy StaticAsset = CacheFirst"
| "spec_strategy Image = NetworkFirst"
| "spec_strategy Document = NetworkFirst"
| "spec_strategy ExternalAPI = NetworkWithTimeout 5000"
| "spec_strategy Other = NetworkFirst"

fun run_strategy :: "strategy \<Rightarrow> env \<Rightarrow> request \<Rightarrow> sw_state \<Rightarrow> response \<times> sw_state" where
  "run_strategy CacheFirst e req st = cacheFirst e req st"
| "run_strategy NetworkFirst e req st = networkFirst e req st"
| "run_strategy (NetworkWithTimeout ms) e req st = networkWithTimeout e req ms st"

section \<open>The message handler\<close>

text \<open>
  \<open>data_type\<close> is \<open>event.data.type\<close>, or \<open>None\<close> when \<open>event.data\<close> is falsy or has no such
  field; \<open>ports\<close> is the number of message ports. \<open>event.ports[0].postMessage\<close> throws a
  \<open>TypeError\<close> when there is no port. The three tests run one after the other. In the
  \<open>CLEAR_CACHE\<close> branch the reply is posted from a promise callback, where a missing
  port does not make the handler throw.
\<close>

record message_event =
  data_type :: "string option"
  ports :: nat

datatype js_error = TypeError

definition msg_skip_waiting :: "message_event \<Rightarrow> sw_state \<Rightarrow> sw_state" where
  "msg_skip_waiting ev st =
     (if data_type ev = Some ''SKIP_WAITING'' then record_call SkipWaiting st else st)"

definition msg_get_version :: "message_event \<Rightarrow> sw_state \<Rightarrow> js_error + sw_state" where
  "msg_get_version ev st =
     (if data_type ev = Some ''GET_VERSION''
      then (if ports ev = 0 then Inl TypeError
            else Inr (record_call (PostMessage (VersionReply CACHE_NAME)) st))
      else Inr st)"

definition msg_clear_cache :: "message_event \<Rightarrow> sw_state \<Rightarrow> sw_state" where
  "msg_clear_cache ev st =
     (if data_type ev = Some ''CLEAR_CACHE''
      then (let st1 = record_call CachesKeys st;
                st2 = fold delete_cache (caches_keys (caches st1)) st1
            in if ports ev = 0 then st2 else record_call (PostMessage SuccessReply) st2)
      else st)"

definition message_handler :: "message_event \<Rightarrow> sw_state \<Rightarrow> js_error + sw_state" where
  "message_handler ev st =
     (case msg_get_version ev (msg_skip_waiting ev st) of
        Inl err \<Rightarrow> Inl err
      | Inr st1 \<Rightarrow> Inr (msg_clear_cache ev st1))"

section \<open>Sample environments, states and requests\<close>

text \<open>
  Concrete inputs on which the theorems below are instantiated. \<open>bare_api_request\<close>
  carries an absolute URL without a slash.
\<close>

definition page :: response where
  "page = \<lparr>status = 200, headers = [], body = ''payload''\<rparr>"

definition old_copy :: response where
  "old_copy = \<lparr>status = 200, headers = [], body = ''older payload''\<rparr>"

definition not_found :: response where
  "not_found = \<lparr>status = 404, headers = [], body = ''not found''\<rparr>"

definition net_up :: env where
  "net_up = \<lparr>origin = ''https://vivomas.cl'', net = (\<lambda>u. Responds 20 page),
             timer_wins_tie = True\<rparr>"

definition net_down :: env where
  "net_down = \<lparr>origin = ''https://vivomas.cl'', net = (\<lambda>u. Fails 20),
               timer_wins_tie = True\<rparr>"

definition net_missing :: env where
  "net_missing = \<lparr>origin = ''https://vivomas.cl'', net = (\<lambda>u. Responds 20 not_found),
                  timer_wins_tie = True\<rparr>"

definition net_slow :: env where
  "net_slow = \<lparr>origin = ''https://vivomas.cl'', net = (\<lambda>u. Responds 6000 page),
               timer_wins_tie = True\<rparr>"

definition net_priming_down :: env where
  "net_priming_down =
     \<lparr>origin = ''https://vivomas.cl'',
      net = (\<lambda>u. if u = ''https://vivomas.cl/productos/citrato_magnesio.png''
                 then Fails 20 else Responds 20 page),
      timer_wins_tie = True\<rparr>"

definition fresh :: sw_state where
  "fresh = \<lparr>caches = [], trace = [], pending = []\<rparr>"

definition image_request :: request where
  "image_request =
     \<lparr>method_req = ''GET'', url = ''https://vivomas.cl/productos/x.png'', accept = None\<rparr>"

definition dynamic_only :: sw_state where
  "dynamic_only =
     \<lparr>caches = [(STATIC_CACHE, Map.empty),
                (DYNAMIC_CACHE, [''https://vivomas.cl/productos/x.png'' \<mapsto> old_copy])],
      trace = [], pending = []\<rparr>"

definition bare_api_request :: request where
  "bare_api_request = \<lparr>method_req = ''GET'', url = ''data:,wa.me'', accept = None\<rparr>"

definition static_holds_old :: sw_state where
  "static_holds_old =
     \<lparr>caches = [(STATIC_CACHE, [''https://vivomas.cl/productos/x.png'' \<mapsto> old_copy]),
                (DYNAMIC_CACHE, Map.empty)],
      trace = [], pending = []\<rparr>"

definition post_request :: request where
  "post_request =
     \<lparr>method_req = ''POST'', url = ''https://vivomas.cl/index.html'', accept = None\<rparr>"

definition three_generations :: sw_state where
  "three_generations =
     \<lparr>caches = [(STATIC_CACHE, Map.empty), (DYNAMIC_CACHE, Map.empty),
                (''vivomas-static-v0'', Map.empty)],
      trace = [], pending = []\<rparr>"

definition version_query :: message_event where
  "version_query = \<lparr>data_type = Some ''GET_VERSION'', ports = 1\<rparr>"

section \<open>Facts about the string utilities\<close>

lemma startsWith_iff: "startsWith s sub \<longleftrightarrow> (\<exists>q. s = sub @ q)"
  by (induction s sub rule: startsWith.induct) auto

lemma includes_iff: "includes_str s sub \<longleftrightarrow> (\<exists>p q. s = p @ sub @ q)"
proof (induction s)
  case Nil
  then show ?case by auto
next
  case (Cons c cs)
  show ?case
  proof
    assume "includes_str (c # cs) sub"
    then consider "startsWith (c # cs) sub" | "includes_str cs sub" by auto
    then show "\<exists>p q. c # cs = p @ sub @ q"
    proof cases
      case 1
      then obtain q where "c # cs = sub @ q" by (auto simp: startsWith_iff)
      then have "c # cs = [] @ sub @ q" by simp
      then show ?thesis by blast
    next
      case 2
      then obtain p q where "cs = p @ sub @ q" using Cons.IH by blast
      then have "c # cs = (c # p) @ sub @ q" by simp
      then show ?thesis by blast
    qed
  next
    assume "\<exists>p q. c # cs = p @ sub @ q"
    then obtain p q where pq: "c # cs = p @ sub @ q" by blast
    show "includes_str (c # cs) sub"
    proof (cases p)
      case Nil
      with pq have "startsWith (c # cs) sub" by (auto simp: startsWith_iff)
      then show ?thesis by simp
    next
      case (Cons d ds)
      with pq have "cs = ds @ sub @ q" by simp
      then have "includes_str cs sub" using Cons.IH by blast
      then show ?thesis by simp
    qed
  qed
qed

lemma includes_slash: "CHR ''/'' \<in> set u \<Longrightarrow> includes_str u ''/''"
  by (induction u) auto

lemma page_ok: "ok page"
  by (simp add: ok_def page_def)

lemma not_found_not_ok: "\<not> ok not_found"
  by (simp add: ok_def not_found_def)

section \<open>Facts about the classifier\<close>

lemma isStaticAsset_iff:
  "isStaticAsset u \<longleftrightarrow>
     (\<exists>a \<in> set (STATIC_ASSETS @ [''.css'', ''.js'', ''.woff'', ''.woff2'']). \<exists>p q. u = p @ a @ q)"
  unfolding isStaticAsset_def list_ex_iff includes_iff by auto

lemma fetch_handler_get:
  "method_req req = ''GET'' \<Longrightarrow>
     fetch_handler e req st = respondWith (run_strategy (spec_strategy (classify req)) e req st)"
  by (simp add: fetch_handler_def classify_def)

lemma isStaticAsset_slash: "CHR ''/'' \<in> set u \<Longrightarrow> isStaticAsset u"
  by (simp add: isStaticAsset_def STATIC_ASSETS_def includes_slash)

lemma scheme_has_slash: "includes_str u ''://'' \<Longrightarrow> CHR ''/'' \<in> set u"
  by (auto simp: includes_iff)

section \<open>Facts about the cache storage\<close>

lemma caches_match_found_iff:
  "caches_match cs k \<noteq> None \<longleftrightarrow> (\<exists>(n, g) \<in> set cs. g k \<noteq> None)"
  by (induction cs k rule: caches_match.induct) (auto split: option.splits)

lemma map_of_caches_open:
  "map_of (caches_open name cs) m
     = (if m = name \<and> name \<notin> set (map fst cs) then Some Map.empty else map_of cs m)"
proof (cases "name \<in> set (map fst cs)")
  case True
  then show ?thesis by (simp add: caches_open_def)
next
  case False
  then have none: "map_of cs name = None" by (simp add: map_of_eq_None_iff)
  show ?thesis
    using False none by (cases "map_of cs m") (auto simp: caches_open_def map_add_def)
qed

lemma map_of_cache_put:
  "map_of (cache_put name k r cs) m
     = (case map_of cs m of
          None \<Rightarrow> None
        | Some c \<Rightarrow> Some (if m = name then c(k \<mapsto> r) else c))"
  by (induction cs) (auto simp: cache_put_def)

lemma caches_match_put:
  "name \<in> set (map fst cs) \<Longrightarrow> \<forall>(n, g) \<in> set cs. n \<noteq> name \<longrightarrow> g k = None \<Longrightarrow>
     caches_match (cache_put name k r cs) k = Some r"
proof (induction cs)
  case Nil
  then show ?case by simp
next
  case (Cons a cs)
  obtain n g where a: "a = (n, g)" by (cases a)
  show ?case
  proof (cases "n = name")
    case True
    then show ?thesis using a by (simp add: cache_put_def)
  next
    case False
    then have "g k = None" and "name \<in> set (map fst cs)"
      and "\<forall>(n, g) \<in> set cs. n \<noteq> name \<longrightarrow> g k = None"
      using Cons.prems a by auto
    then show ?thesis using Cons.IH a False by (simp add: cache_put_def)
  qed
qed

lemma caches_match_put_open:
  assumes "\<forall>(n, g) \<in> set cs. n \<noteq> name \<longrightarrow> g k = None"
  shows "caches_match (cache_put name k r (caches_open name cs)) k = Some r"
proof (rule caches_match_put)
  show "name \<in> set (map fst (caches_open name cs))"
    by (auto simp: caches_open_def)
  show "\<forall>(n, g) \<in> set (caches_open name cs). n \<noteq> name \<longrightarrow> g k = None"
    using assms by (auto simp: caches_open_def)
qed

lemma names_cache_put: "map fst (cache_put name k r cs) = map fst cs"
  by (induction cs) (auto simp: cache_put_def)

lemma names_fold_apply_put: "map fst (fold apply_put ps cs) = map fst cs"
proof (induction ps arbitrary: cs)
  case Nil
  then show ?case by simp
next
  case (Cons p ps)
  obtain name k r where p: "p = (name, k, r)" by (cases p)
  show ?case using Cons.IH [of "apply_put p cs"] by (simp add: p apply_put_def names_cache_put)
qed

lemma cache_get_put_same:
  assumes "name \<in> set (map fst cs)"
  shows "cache_get name k (cache_put name k r cs) = Some r"
proof -
  obtain g where "map_of cs name = Some g"
    using assms by (cases "map_of cs name") (auto simp: map_of_eq_None_iff)
  then show ?thesis by (simp add: cache_get_def map_of_cache_put)
qed

lemma caches_match_put_other:
  "k' \<noteq> k \<Longrightarrow> caches_match (cache_put name k r cs) k' = caches_match cs k'"
  by (induction cs k' rule: caches_match.induct) (auto simp: cache_put_def split: option.splits)

lemma caches_match_open: "caches_match (caches_open name cs) k = caches_match cs k"
proof -
  have "caches_match (cs @ [(name, Map.empty)]) k = caches_match cs k"
    by (induction cs k rule: caches_match.induct) (auto split: option.splits)
  then show ?thesis by (simp add: caches_open_def)
qed

lemma settle_after_put:
  "caches (settle_puts (put_cache name k r st))
     = cache_put name k r (fold apply_put (pending st) (caches st))"
  by (simp add: settle_puts_def put_cache_def record_call_def apply_put_def)

lemma fetch_all_ok_iff:
  "fetch_all e ps \<noteq> None
     \<longleftrightarrow> (\<forall>p \<in> set ps. \<exists>t r. net e (resolve e p) = Responds t r \<and> ok r)"
  by (induction ps) (auto simp: settled_def split: option.splits net_outcome.splits)

lemma addAll_ok_iff: "fst (addAll e name ps st) \<longleftrightarrow> fetch_all e ps \<noteq> None"
  by (auto simp: addAll_def Let_def split: option.splits)

lemma install_result:
  "fst (install e st) = Completed
     \<longleftrightarrow> fetch_all e STATIC_ASSETS \<noteq> None \<and> fetch_all e priming \<noteq> None"
proof -
  have "fst (install e st) = Completed
     \<longleftrightarrow> fst (addAll e STATIC_CACHE STATIC_ASSETS
                (record_call SkipWaiting (open_cache DYNAMIC_CACHE (open_cache STATIC_CACHE st))))
         \<and> fst (addAll e DYNAMIC_CACHE priming
                (snd (addAll e STATIC_CACHE STATIC_ASSETS
                  (record_call SkipWaiting
                    (open_cache DYNAMIC_CACHE (open_cache STATIC_CACHE st))))))"
    by (simp add: install_def Let_def split_beta)
  then show ?thesis by (simp add: addAll_ok_iff)
qed

lemma fold_activate_step_caches:
  "caches (fold activate_step ns st)
     = filter (\<lambda>(n, c). \<not> (n \<in> set ns \<and> n \<noteq> STATIC_CACHE \<and> n \<noteq> DYNAMIC_CACHE)) (caches st)"
proof (induction ns arbitrary: st)
  case Nil
  then show ?case by simp
next
  case (Cons a ns)
  have "caches (activate_step a st)
          = filter (\<lambda>(n, c). \<not> (n = a \<and> n \<noteq> STATIC_CACHE \<and> n \<noteq> DYNAMIC_CACHE)) (caches st)"
    by (auto simp: activate_step_def delete_cache_def caches_delete_def record_call_def
        intro: filter_cong)
  then show ?case
    using Cons.IH [of "activate_step a st"]
    by (auto simp: intro: filter_cong)
qed

lemma fold_activate_step_trace:
  "trace (fold activate_step ns st)
     = trace st @ map CachesDelete (filter (\<lambda>n. n \<noteq> STATIC_CACHE \<and> n \<noteq> DYNAMIC_CACHE) ns)"
proof (induction ns arbitrary: st)
  case Nil
  then show ?case by simp
next
  case (Cons a ns)
  show ?case
    using Cons.IH [of "activate_step a st"]
    by (simp add: activate_step_def delete_cache_def record_call_def)
qed

lemma activate_caches:
  "caches (activate st)
     = filter (\<lambda>(n, c). n = STATIC_CACHE \<or> n = DYNAMIC_CACHE) (caches st)"
proof -
  have "caches (activate st)
          = filter (\<lambda>(n, c). \<not> (n \<in> set (map fst (caches st)) \<and> n \<noteq> STATIC_CACHE
                \<and> n \<noteq> DYNAMIC_CACHE)) (caches st)"
    by (simp add: activate_def Let_def fold_activate_step_caches caches_keys_def
        record_call_def)
  also have "\<dots> = filter (\<lambda>(n, c). n = STATIC_CACHE \<or> n = DYNAMIC_CACHE) (caches st)"
    by (rule filter_cong) force+
  finally show ?thesis .
qed

lemma activate_trace:
  "trace (activate st)
     = trace st @ [CachesKeys, ClientsClaim]
       @ map CachesDelete
           (filter (\<lambda>n. n \<noteq> STATIC_CACHE \<and> n \<noteq> DYNAMIC_CACHE) (caches_keys (caches st)))"
  by (simp add: activate_def Let_def fold_activate_step_trace record_call_def)

section \<open>Classification and dispatch\<close>

text \<open>
  C1. The request for \<open>/productos/x.png\<close>, as a path and as an absolute URL: it is not
  an entry of the static-asset list and ends in none of \<open>.css\<close>, \<open>.js\<close>, \<open>.woff\<close>,
  \<open>.woff2\<close>, and \<open>isImage\<close> holds for it, yet the handler takes the static-asset branch
  for it, because the URL contains the list entry \<open>'/'\<close>. With the network down and
  nothing cached it is answered with the 503 of \<open>cacheFirst\<close>, not with that of
  \<open>networkFirst\<close>.
\<close>

theorem product_image_takes_static_branch:
  "classify \<lparr>method_req = ''GET'', url = ''/productos/x.png'', accept = None\<rparr> = StaticAsset
   \<and> classify \<lparr>method_req = ''GET'', url = ''/productos/x.png'', accept = None\<rparr> \<noteq> Image
   \<and> ''/productos/x.png'' \<notin> set STATIC_ASSETS
   \<and> \<not> endsWith ''/productos/x.png'' ''.css''
   \<and> \<not> endsWith ''/productos/x.png'' ''.js''
   \<and> \<not> endsWith ''/productos/x.png'' ''.woff''
   \<and> \<not> endsWith ''/productos/x.png'' ''.woff2''
   \<and> isImage (url image_request)
   \<and> classify image_request = StaticAsset
   \<and> fetch_handler net_down image_request fresh
       = respondWith (cacheFirst net_down image_request fresh)
   \<and> fst (fetch_handler net_down image_request fresh) = RespondWith unavailable_static
   \<and> fst (networkFirst net_down image_request fresh) = unavailable_content
   \<and> unavailable_static \<noteq> unavailable_content"
  by (simp add: classify_def isStaticAsset_def isImage_def STATIC_ASSETS_def endsWith_def
      image_request_def fetch_handler_def respondWith_def cacheFirst_def networkFirst_def
      record_call_def fresh_def net_down_def settled_def acceptsHtml_def
      unavailable_static_def unavailable_content_def)

text \<open>
  C2. The list entry \<open>'/'\<close> is tested by containment, so \<open>isStaticAsset\<close> holds for every
  URL string with a \<open>/\<close> in it, and so for every URL with \<open>://\<close> after its scheme. Such a
  \<open>GET\<close> request is in class \<open>StaticAsset\<close> and is answered by \<open>cacheFirst\<close>; no other
  branch of the handler is reached.
\<close>

theorem static_branch_takes_every_url:
  "(CHR ''/'' \<in> set u \<longrightarrow> isStaticAsset u)
   \<and> (includes_str u ''://'' \<longrightarrow> isStaticAsset u)
   \<and> (method_req req = ''GET'' \<and> CHR ''/'' \<in> set (url req) \<longrightarrow>
        classify req = StaticAsset
        \<and> fetch_handler e req st = respondWith (cacheFirst e req st))"
  using isStaticAsset_slash [of u] isStaticAsset_slash [of "url req"] scheme_has_slash [of u]
  by (auto simp: classify_def fetch_handler_def)

theorem static_branch_takes_every_url_witness:
  "CHR ''/'' \<in> set (url image_request)
   \<and> includes_str (url image_request) ''://''
   \<and> method_req image_request = ''GET''
   \<and> isStaticAsset (url image_request)
   \<and> classify image_request = StaticAsset
   \<and> fetch_handler net_up image_request fresh = respondWith (cacheFirst net_up image_request fresh)"
proof -
  have h: "CHR ''/'' \<in> set (url image_request)" "includes_str (url image_request) ''://''"
    "method_req image_request = ''GET''"
    by (simp_all add: image_request_def)
  then show ?thesis
    using static_branch_takes_every_url [of "url image_request" image_request net_up fresh]
    by blast
qed

section \<open>The cache-first strategy\<close>

text \<open>
  C3, as the code has it. \<open>cacheFirst\<close> looks the request up with \<open>caches.match\<close>, that
  is in every generation there is, in creation order. An entry found in any of them is
  returned with no network call and no write. Otherwise the request is fetched: for a
  response with a status from 200 to 299 the static generation is opened, a put of the
  response under the request URL is issued, and the response is returned; once the put
  has settled the static generation holds the response. A response with another status
  is returned and not stored; a rejected fetch gives the response with status 503.
\<close>

theorem cacheFirst_behaviour:
  "(caches_match (caches st) (url req) = Some c \<longrightarrow>
      cacheFirst e req st = (c, st\<lparr>trace := trace st @ [CachesMatch (url req)]\<rparr>))
   \<and> (caches_match (caches st) (url req) = None \<and> net e (url req) = Responds t r \<and> ok r \<longrightarrow>
        fst (cacheFirst e req st) = r
        \<and> caches (snd (cacheFirst e req st)) = caches_open STATIC_CACHE (caches st)
        \<and> pending (snd (cacheFirst e req st)) = pending st @ [(STATIC_CACHE, url req, r)]
        \<and> caches (settle_puts (snd (cacheFirst e req st)))
            = cache_put STATIC_CACHE (url req) r
                (fold apply_put (pending st) (caches_open STATIC_CACHE (caches st)))
        \<and> cache_get STATIC_CACHE (url req) (caches (settle_puts (snd (cacheFirst e req st))))
            = Some r
        \<and> trace (snd (cacheFirst e req st))
            = trace st @ [CachesMatch (url req), Fetch (url req), CachesOpen STATIC_CACHE,
                          CachePut STATIC_CACHE (url req)])
   \<and> (caches_match (caches st) (url req) = None \<and> net e (url req) = Responds t r \<and> \<not> ok r \<longrightarrow>
        cacheFirst e req st
          = (r, st\<lparr>trace := trace st @ [CachesMatch (url req), Fetch (url req)]\<rparr>))
   \<and> (caches_match (caches st) (url req) = None \<and> net e (url req) = Fails t \<longrightarrow>
        cacheFirst e req st
          = (unavailable_static,
             st\<lparr>trace := trace st @ [CachesMatch (url req), Fetch (url req)]\<rparr>))
   \<and> status unavailable_static = 503
   \<and> (caches_match (caches st) (url req) \<noteq> None \<longleftrightarrow>
        (\<exists>(n, g) \<in> set (caches st). g (url req) \<noteq> None))"
proof -
  have hit: "caches_match (caches st) (url req) = Some c \<longrightarrow>
      cacheFirst e req st = (c, st\<lparr>trace := trace st @ [CachesMatch (url req)]\<rparr>)"
    by (simp add: cacheFirst_def record_call_def)
  have stored:
    "caches_match (caches st) (url req) = None \<and> net e (url req) = Responds t r \<and> ok r \<longrightarrow>
        fst (cacheFirst e req st) = r
        \<and> caches (snd (cacheFirst e req st)) = caches_open STATIC_CACHE (caches st)
        \<and> pending (snd (cacheFirst e req st)) = pending st @ [(STATIC_CACHE, url req, r)]
        \<and> caches (settle_puts (snd (cacheFirst e req st)))
            = cache_put STATIC_CACHE (url req) r
                (fold apply_put (pending st) (caches_open STATIC_CACHE (caches st)))
        \<and> cache_get STATIC_CACHE (url req) (caches (settle_puts (snd (cacheFirst e req st))))
            = Some r
        \<and> trace (snd (cacheFirst e req st))
            = trace st @ [CachesMatch (url req), Fetch (url req), CachesOpen STATIC_CACHE,
                          CachePut STATIC_CACHE (url req)]"
  proof (intro impI)
    assume h: "caches_match (caches st) (url req) = None \<and> net e (url req) = Responds t r \<and> ok r"
    let ?opened = "open_cache STATIC_CACHE (record_call (Fetch (url req))
                     (record_call (CachesMatch (url req)) st))"
    have run: "cacheFirst e req st = (r, put_cache STATIC_CACHE (url req) r ?opened)"
      using h by (simp add: cacheFirst_def record_call_def settled_def)
    have opened: "caches ?opened = caches_open STATIC_CACHE (caches st)"
      "pending ?opened = pending st"
      "trace ?opened = trace st @ [CachesMatch (url req), Fetch (url req), CachesOpen STATIC_CACHE]"
      by (simp_all add: open_cache_def record_call_def)
    have name: "STATIC_CACHE \<in> set (map fst
        (fold apply_put (pending st) (caches_open STATIC_CACHE (caches st))))"
      unfolding names_fold_apply_put by (auto simp: caches_open_def)
    have settled_caches: "caches (settle_puts (put_cache STATIC_CACHE (url req) r ?opened))
        = cache_put STATIC_CACHE (url req) r
            (fold apply_put (pending st) (caches_open STATIC_CACHE (caches st)))"
      unfolding settle_after_put opened ..
    show "fst (cacheFirst e req st) = r
        \<and> caches (snd (cacheFirst e req st)) = caches_open STATIC_CACHE (caches st)
        \<and> pending (snd (cacheFirst e req st)) = pending st @ [(STATIC_CACHE, url req, r)]
        \<and> caches (settle_puts (snd (cacheFirst e req st)))
            = cache_put STATIC_CACHE (url req) r
                (fold apply_put (pending st) (caches_open STATIC_CACHE (caches st)))
        \<and> cache_get STATIC_CACHE (url req) (caches (settle_puts (snd (cacheFirst e req st))))
            = Some r
        \<and> trace (snd (cacheFirst e req st))
            = trace st @ [CachesMatch (url req), Fetch (url req), CachesOpen STATIC_CACHE,
                          CachePut STATIC_CACHE (url req)]"
      unfolding run fst_conv snd_conv settled_caches
      using opened cache_get_put_same [OF name]
      by (simp add: put_cache_def record_call_def)
  qed
  have not_ok:
    "caches_match (caches st) (url req) = None \<and> net e (url req) = Responds t r \<and> \<not> ok r \<longrightarrow>
        cacheFirst e req st
          = (r, st\<lparr>trace := trace st @ [CachesMatch (url req), Fetch (url req)]\<rparr>)"
    by (simp add: cacheFirst_def record_call_def settled_def)
  have failed: "caches_match (caches st) (url req) = None \<and> net e (url req) = Fails t \<longrightarrow>
        cacheFirst e req st
          = (unavailable_static,
             st\<lparr>trace := trace st @ [CachesMatch (url req), Fetch (url req)]\<rparr>)"
    by (simp add: cacheFirst_def record_call_def settled_def)
  have st503: "status unavailable_static = 503"
    by (simp add: unavailable_static_def)
  show ?thesis
    using hit stored not_ok failed st503 caches_match_found_iff [of "caches st" "url req"]
    by blast
qed

theorem cacheFirst_behaviour_witness:
  "cacheFirst net_up image_request dynamic_only
     = (old_copy, dynamic_only\<lparr>trace := trace dynamic_only @ [CachesMatch (url image_request)]\<rparr>)
   \<and> fst (cacheFirst net_up image_request fresh) = page
   \<and> cache_get STATIC_CACHE (url image_request)
        (caches (settle_puts (snd (cacheFirst net_up image_request fresh)))) = Some page
   \<and> cacheFirst net_missing image_request fresh
       = (not_found,
          fresh\<lparr>trace := trace fresh @ [CachesMatch (url image_request), Fetch (url image_request)]\<rparr>)
   \<and> cacheFirst net_down image_request fresh
       = (unavailable_static,
          fresh\<lparr>trace := trace fresh @ [CachesMatch (url image_request), Fetch (url image_request)]\<rparr>)"
proof -
  have hit: "caches_match (caches dynamic_only) (url image_request) = Some old_copy"
    by (simp add: dynamic_only_def image_request_def)
  have miss: "caches_match (caches fresh) (url image_request) = None"
    by (simp add: fresh_def)
  have up: "net net_up (url image_request) = Responds 20 page"
    by (simp add: net_up_def)
  have missing: "net net_missing (url image_request) = Responds 20 not_found"
    by (simp add: net_missing_def)
  have down: "net net_down (url image_request) = Fails 20"
    by (simp add: net_down_def)
  note at_hit = cacheFirst_behaviour [of dynamic_only image_request old_copy net_up 20 page]
  note at_up = cacheFirst_behaviour [of fresh image_request old_copy net_up 20 page]
  note at_missing = cacheFirst_behaviour [of fresh image_request old_copy net_missing 20 not_found]
  note at_down = cacheFirst_behaviour [of fresh image_request old_copy net_down 20 page]
  have c1: "cacheFirst net_up image_request dynamic_only
     = (old_copy, dynamic_only\<lparr>trace := trace dynamic_only @ [CachesMatch (url image_request)]\<rparr>)"
    using conjunct1 [OF at_hit] hit by simp
  have c2: "fst (cacheFirst net_up image_request fresh) = page
     \<and> cache_get STATIC_CACHE (url image_request)
        (caches (settle_puts (snd (cacheFirst net_up image_request fresh)))) = Some page"
    using conjunct1 [OF conjunct2 [OF at_up]] miss up page_ok by blast
  have c3: "cacheFirst net_missing image_request fresh
       = (not_found,
          fresh\<lparr>trace := trace fresh @ [CachesMatch (url image_request), Fetch (url image_request)]\<rparr>)"
    using conjunct1 [OF conjunct2 [OF conjunct2 [OF at_missing]]] miss missing not_found_not_ok
    by simp
  have c4: "cacheFirst net_down image_request fresh
       = (unavailable_static,
          fresh\<lparr>trace := trace fresh @ [CachesMatch (url image_request), Fetch (url image_request)]\<rparr>)"
    using conjunct1 [OF conjunct2 [OF conjunct2 [OF conjunct2 [OF at_down]]]] miss down
    by simp
  show ?thesis using c1 c2 c3 c4 by simp
qed

text \<open>
  The static generation holds no entry for the request and the network would answer
  \<open>page\<close>; \<open>cacheFirst\<close> returns the entry of the dynamic generation and makes no fetch.
\<close>

theorem cacheFirst_other_generation_counterexample:
  "cache_get STATIC_CACHE (url image_request) (caches dynamic_only) = None
   \<and> net net_up (url image_request) = Responds 20 page
   \<and> cacheFirst net_up image_request dynamic_only
       = (old_copy, dynamic_only\<lparr>trace := [CachesMatch (url image_request)]\<rparr>)
   \<and> old_copy \<noteq> page"
  by (simp add: cacheFirst_def cache_get_def dynamic_only_def image_request_def net_up_def
      record_call_def STATIC_CACHE_def DYNAMIC_CACHE_def old_copy_def page_def)

section \<open>The control channel\<close>

text \<open>
  C4, as the code has it. The reply to \<open>GET_VERSION\<close> carries the constant \<open>CACHE_NAME\<close>,
  \<open>vivomas-v1.0.0\<close>, whatever generations exist; nothing else is done.
\<close>

theorem get_version_replies_cache_name:
  "data_type ev = Some ''GET_VERSION'' \<Longrightarrow> ports ev \<noteq> 0 \<Longrightarrow>
     message_handler ev st =
       Inr (st\<lparr>trace := trace st @ [PostMessage (VersionReply ''vivomas-v1.0.0'')]\<rparr>)"
  by (simp add: message_handler_def msg_get_version_def msg_skip_waiting_def
      msg_clear_cache_def record_call_def CACHE_NAME_def)

theorem get_version_replies_cache_name_witness:
  "data_type version_query = Some ''GET_VERSION''
   \<and> ports version_query \<noteq> 0
   \<and> message_handler version_query three_generations
       = Inr (three_generations\<lparr>trace := trace three_generations
                @ [PostMessage (VersionReply ''vivomas-v1.0.0'')]\<rparr>)"
proof -
  have h: "data_type version_query = Some ''GET_VERSION''" "ports version_query \<noteq> 0"
    by (simp_all add: version_query_def)
  then show ?thesis
    using get_version_replies_cache_name [of version_query three_generations] by simp
qed

text \<open>The version replied is not the name of the static generation.\<close>

theorem get_version_counterexample:
  "message_handler version_query three_generations
     = Inr (three_generations\<lparr>trace := [PostMessage (VersionReply ''vivomas-v1.0.0'')]\<rparr>)
   \<and> fst (hd (caches three_generations)) = STATIC_CACHE
   \<and> ''vivomas-v1.0.0'' \<noteq> STATIC_CACHE"
  by (simp add: message_handler_def msg_get_version_def msg_skip_waiting_def
      msg_clear_cache_def record_call_def CACHE_NAME_def STATIC_CACHE_def version_query_def
      three_generations_def)

section \<open>Install\<close>

text \<open>
  C5, as the code has it. The install phase completes exactly when every static asset
  and every one of the five priming images (the first three product images and the first
  two branch images) is fetched with a status from 200 to 299; otherwise it fails. A
  failure of the priming step alone makes the installation fail.
\<close>

theorem install_needs_priming:
  "(fst (install e st) = Completed \<longleftrightarrow>
      (\<forall>p \<in> set STATIC_ASSETS. \<exists>t r. net e (resolve e p) = Responds t r \<and> ok r)
      \<and> (\<forall>p \<in> set priming. \<exists>t r. net e (resolve e p) = Responds t r \<and> ok r))
   \<and> (fst (install e st) \<noteq> Completed \<longrightarrow> fst (install e st) = Failed)
   \<and> priming = [''/productos/citrato_magnesio.png'', ''/productos/citrato_potasio.png'',
                 ''/productos/vitamina_d3.png'', ''/sucursal_castellon.jpg'',
                 ''/sucursal_ohiggins.jpg'']"
proof (intro conjI)
  show "fst (install e st) = Completed \<longleftrightarrow>
      (\<forall>p \<in> set STATIC_ASSETS. \<exists>t r. net e (resolve e p) = Responds t r \<and> ok r)
      \<and> (\<forall>p \<in> set priming. \<exists>t r. net e (resolve e p) = Responds t r \<and> ok r)"
    unfolding install_result fetch_all_ok_iff ..
  show "fst (install e st) \<noteq> Completed \<longrightarrow> fst (install e st) = Failed"
    by (cases "fst (install e st)") auto
  show "priming = [''/productos/citrato_magnesio.png'', ''/productos/citrato_potasio.png'',
                 ''/productos/vitamina_d3.png'', ''/sucursal_castellon.jpg'',
                 ''/sucursal_ohiggins.jpg'']"
    by (simp add: priming_def PRODUCT_IMAGES_def BRANCH_IMAGES_def)
qed

theorem install_needs_priming_witness:
  "fst (install net_up fresh) = Completed \<and> fst (install net_priming_down fresh) = Failed"
proof
  have "\<forall>p \<in> set STATIC_ASSETS. \<exists>t r. net net_up (resolve net_up p) = Responds t r \<and> ok r"
    and "\<forall>p \<in> set priming. \<exists>t r. net net_up (resolve net_up p) = Responds t r \<and> ok r"
    by (simp_all add: net_up_def page_ok)
  then show "fst (install net_up fresh) = Completed"
    using install_needs_priming [of net_up fresh] by blast
  have "''/productos/citrato_magnesio.png'' \<in> set priming"
    by (simp add: priming_def PRODUCT_IMAGES_def)
  moreover have "net net_priming_down (resolve net_priming_down ''/productos/citrato_magnesio.png'')
      = Fails 20"
    by (simp add: net_priming_down_def resolve_def)
  ultimately have
    "\<not> (\<forall>p \<in> set priming. \<exists>t r. net net_priming_down (resolve net_priming_down p)
          = Responds t r \<and> ok r)"
    by force
  then show "fst (install net_priming_down fresh) = Failed"
    using install_needs_priming [of net_priming_down fresh] by blast
qed

text \<open>
  Two networks on which the static bulk-populate step succeeds alike; on the one where
  the first product image cannot be fetched the installation fails.
\<close>

theorem install_priming_counterexample:
  "fst (addAll net_priming_down STATIC_CACHE STATIC_ASSETS fresh) = True
   \<and> fst (addAll net_up STATIC_CACHE STATIC_ASSETS fresh) = True
   \<and> fst (install net_up fresh) = Completed
   \<and> fst (install net_priming_down fresh) = Failed"
  by (simp add: install_def addAll_def Let_def split_beta STATIC_ASSETS_def priming_def
      PRODUCT_IMAGES_def BRANCH_IMAGES_def net_priming_down_def net_up_def resolve_def
      settled_def page_ok)

section \<open>Activate\<close>

text \<open>
  C6. Activation keeps exactly the generations named \<open>STATIC_CACHE\<close> or \<open>DYNAMIC_CACHE\<close>,
  with their contents, and issues a delete for each other name that \<open>caches.keys()\<close>
  reported. With the generations of the current static name, the current dynamic name
  and an older static name, the older one is deleted and the other two survive.
\<close>

theorem activate_evicts_stale:
  "caches (activate st)
     = filter (\<lambda>(n, c). n = STATIC_CACHE \<or> n = DYNAMIC_CACHE) (caches st)
   \<and> trace (activate st)
     = trace st @ [CachesKeys, ClientsClaim]
       @ map CachesDelete
           (filter (\<lambda>n. n \<noteq> STATIC_CACHE \<and> n \<noteq> DYNAMIC_CACHE) (caches_keys (caches st)))
   \<and> (caches st = [(STATIC_CACHE, c1), (DYNAMIC_CACHE, c2), (''vivomas-static-v0'', c3)] \<longrightarrow>
        caches (activate st) = [(STATIC_CACHE, c1), (DYNAMIC_CACHE, c2)]
        \<and> trace (activate st)
            = trace st @ [CachesKeys, ClientsClaim, CachesDelete ''vivomas-static-v0''])"
  using activate_caches [of st] activate_trace [of st]
  by (simp add: caches_keys_def STATIC_CACHE_def DYNAMIC_CACHE_def)

theorem activate_evicts_stale_witness:
  "caches three_generations
     = [(STATIC_CACHE, Map.empty), (DYNAMIC_CACHE, Map.empty), (''vivomas-static-v0'', Map.empty)]
   \<and> caches (activate three_generations)
       = [(STATIC_CACHE, Map.empty), (DYNAMIC_CACHE, Map.empty)]
   \<and> trace (activate three_generations)
       = trace three_generations @ [CachesKeys, ClientsClaim, CachesDelete ''vivomas-static-v0'']"
proof -
  have h: "caches three_generations
     = [(STATIC_CACHE, Map.empty), (DYNAMIC_CACHE, Map.empty), (''vivomas-static-v0'', Map.empty)]"
    by (simp add: three_generations_def)
  then show ?thesis
    using activate_evicts_stale [of three_generations Map.empty Map.empty Map.empty]
    by blast
qed

text \<open>
  C9. A second activation right after the first leaves the same generations, names and
  contents, as the first alone.
\<close>

theorem activate_idempotent:
  "caches (activate (activate st)) = caches (activate st)
   \<and> set (caches_keys (caches (activate (activate st))))
       = set (caches_keys (caches (activate st)))"
  by (simp add: activate_caches [of "activate st"] activate_caches [of st])

section \<open>The network-with-timeout strategy\<close>

text \<open>
  C7. \<open>networkWithTimeout\<close> sets a timer and fetches, and calls nothing else: the cache
  storage is left as it was and the response does not depend on it. A rejected fetch and
  a fetch that settles after the timer give the response with status 503; a fetch that
  settles before the timer gives its own response; when both fall due together the host's
  order decides between the two. The fetch handler passes a timeout of 5000 ms.
\<close>

theorem networkWithTimeout_never_caches:
  "snd (networkWithTimeout e req ms st)
     = st\<lparr>trace := trace st @ [SetTimeout ms, Fetch (url req)]\<rparr>
   \<and> caches (snd (networkWithTimeout e req ms st)) = caches st
   \<and> fst (networkWithTimeout e req ms st) = fst (networkWithTimeout e req ms (st\<lparr>caches := cs\<rparr>))
   \<and> (net e (url req) = Fails t \<longrightarrow> fst (networkWithTimeout e req ms st) = unavailable_service)
   \<and> (net e (url req) = Responds t r \<and> ms < t \<longrightarrow>
        fst (networkWithTimeout e req ms st) = unavailable_service)
   \<and> (net e (url req) = Responds t r \<and> t < ms \<longrightarrow> fst (networkWithTimeout e req ms st) = r)
   \<and> (net e (url req) = Responds t r \<and> t = ms \<longrightarrow>
        fst (networkWithTimeout e req ms st)
          = (if timer_wins_tie e then unavailable_service else r))
   \<and> status unavailable_service = 503
   \<and> (method_req req = ''GET'' \<and> classify req = ExternalAPI \<longrightarrow>
        fetch_handler e req st = respondWith (networkWithTimeout e req 5000 st))"
proof -
  have dispatch: "method_req req = ''GET'' \<and> classify req = ExternalAPI \<longrightarrow>
        fetch_handler e req st = respondWith (networkWithTimeout e req 5000 st)"
    using fetch_handler_get [of req e st] by auto
  have rest: "snd (networkWithTimeout e req ms st)
     = st\<lparr>trace := trace st @ [SetTimeout ms, Fetch (url req)]\<rparr>
   \<and> caches (snd (networkWithTimeout e req ms st)) = caches st
   \<and> fst (networkWithTimeout e req ms st) = fst (networkWithTimeout e req ms (st\<lparr>caches := cs\<rparr>))
   \<and> (net e (url req) = Fails t \<longrightarrow> fst (networkWithTimeout e req ms st) = unavailable_service)
   \<and> (net e (url req) = Responds t r \<and> ms < t \<longrightarrow>
        fst (networkWithTimeout e req ms st) = unavailable_service)
   \<and> (net e (url req) = Responds t r \<and> t < ms \<longrightarrow> fst (networkWithTimeout e req ms st) = r)
   \<and> (net e (url req) = Responds t r \<and> t = ms \<longrightarrow>
        fst (networkWithTimeout e req ms st)
          = (if timer_wins_tie e then unavailable_service else r))
   \<and> status unavailable_service = 503"
    by (auto simp: networkWithTimeout_def race_def record_call_def Let_def
        unavailable_service_def split: option.splits net_outcome.splits)
  show ?thesis using dispatch rest by blast
qed

theorem networkWithTimeout_never_caches_witness:
  "fst (networkWithTimeout net_down bare_api_request 5000 dynamic_only) = unavailable_service
   \<and> fst (networkWithTimeout net_slow bare_api_request 5000 dynamic_only) = unavailable_service
   \<and> fst (networkWithTimeout net_up bare_api_request 5000 dynamic_only) = page
   \<and> caches (snd (networkWithTimeout net_up bare_api_request 5000 dynamic_only))
       = caches dynamic_only
   \<and> fetch_handler net_up bare_api_request dynamic_only
       = respondWith (networkWithTimeout net_up bare_api_request 5000 dynamic_only)"
proof -
  note at_down = networkWithTimeout_never_caches
    [of net_down bare_api_request 5000 dynamic_only "[]" 20 page]
  note at_slow = networkWithTimeout_never_caches
    [of net_slow bare_api_request 5000 dynamic_only "[]" 6000 page]
  note at_up = networkWithTimeout_never_caches
    [of net_up bare_api_request 5000 dynamic_only "[]" 20 page]
  have down: "net net_down (url bare_api_request) = Fails 20"
    by (simp add: net_down_def)
  have slow: "net net_slow (url bare_api_request) = Responds 6000 page \<and> (5000::nat) < 6000"
    by (simp add: net_slow_def)
  have up: "net net_up (url bare_api_request) = Responds 20 page \<and> (20::nat) < 5000"
    by (simp add: net_up_def)
  have api: "method_req bare_api_request = ''GET'' \<and> classify bare_api_request = ExternalAPI"
    by (simp add: bare_api_request_def classify_def isStaticAsset_def isImage_def
        isExternalAPI_def acceptsHtml_def STATIC_ASSETS_def)
  have c1: "fst (networkWithTimeout net_down bare_api_request 5000 dynamic_only)
      = unavailable_service"
    using at_down down by blast
  have c2: "fst (networkWithTimeout net_slow bare_api_request 5000 dynamic_only)
      = unavailable_service"
    using at_slow slow by blast
  have c3: "fst (networkWithTimeout net_up bare_api_request 5000 dynamic_only) = page"
    using at_up up by blast
  have c4: "caches (snd (networkWithTimeout net_up bare_api_request 5000 dynamic_only))
       = caches dynamic_only"
    using at_up by blast
  have c5: "fetch_handler net_up bare_api_request dynamic_only
       = respondWith (networkWithTimeout net_up bare_api_request 5000 dynamic_only)"
    using at_up api by blast
  show ?thesis using c1 c2 c3 c4 c5 by simp
qed

section \<open>Requests other than GET\<close>

text \<open>
  C8. For a request whose method is not \<open>GET\<close> the fetch handler returns without
  \<open>respondWith\<close>, so the browser sends the request itself; no host call is made, and
  the cache storage and the record of calls are what they were.
\<close>

theorem non_get_not_intercepted:
  "method_req req \<noteq> ''GET'' \<Longrightarrow> fetch_handler e req st = (NotIntercepted, st)"
  by (simp add: fetch_handler_def)

theorem non_get_not_intercepted_witness:
  "method_req post_request \<noteq> ''GET''
   \<and> fetch_handler net_up post_request dynamic_only = (NotIntercepted, dynamic_only)"
proof -
  have h: "method_req post_request \<noteq> ''GET''"
    by (simp add: post_request_def)
  then show ?thesis
    using non_get_not_intercepted [of post_request net_up dynamic_only] by simp
qed

section \<open>The network-first strategy\<close>

text \<open>
  C10, as the code has it. When the fetch answers with a status from 200 to 299,
  \<open>networkFirst\<close> returns that response, opens the dynamic generation and issues a put
  of the response under the request URL without awaiting it. With no earlier put
  outstanding, once the put has settled the storage is the former one with that entry
  written into the dynamic generation, and \<open>caches.match\<close> for the request URL returns
  the same response provided no other generation holds an entry under that URL. When the
  fetch is rejected or answers with another status nothing is written and nothing is
  pending. A lookup under another key gives what it gave before, and no other generation
  is changed.
\<close>

theorem networkFirst_round_trip:
  "(net e (url req) = Responds t r \<and> ok r \<longrightarrow>
      fst (networkFirst e req st) = r
      \<and> caches (snd (networkFirst e req st)) = caches_open DYNAMIC_CACHE (caches st)
      \<and> pending (snd (networkFirst e req st)) = pending st @ [(DYNAMIC_CACHE, url req, r)]
      \<and> (pending st = [] \<longrightarrow>
           caches (settle_puts (snd (networkFirst e req st)))
             = cache_put DYNAMIC_CACHE (url req) r (caches_open DYNAMIC_CACHE (caches st)))
      \<and> (pending st = []
           \<and> (\<forall>(n, g) \<in> set (caches st). n \<noteq> DYNAMIC_CACHE \<longrightarrow> g (url req) = None) \<longrightarrow>
           caches_match (caches (settle_puts (snd (networkFirst e req st)))) (url req) = Some r))
   \<and> ((\<forall>r'. settled (net e (url req)) = Some r' \<longrightarrow> \<not> ok r') \<longrightarrow>
        caches (snd (networkFirst e req st)) = caches st
        \<and> pending (snd (networkFirst e req st)) = pending st)
   \<and> (pending st = [] \<and> k \<noteq> url req \<longrightarrow>
        caches_match (caches (settle_puts (snd (networkFirst e req st)))) k
          = caches_match (caches st) k)
   \<and> (pending st = [] \<and> n \<noteq> DYNAMIC_CACHE \<longrightarrow>
        map_of (caches (settle_puts (snd (networkFirst e req st)))) n = map_of (caches st) n)"
proof -
  let ?opened = "open_cache DYNAMIC_CACHE (record_call (Fetch (url req)) st)"
  have opened: "caches ?opened = caches_open DYNAMIC_CACHE (caches st)"
    "pending ?opened = pending st"
    by (simp_all add: open_cache_def record_call_def)
  have a: "net e (url req) = Responds t r \<and> ok r \<longrightarrow>
      fst (networkFirst e req st) = r
      \<and> caches (snd (networkFirst e req st)) = caches_open DYNAMIC_CACHE (caches st)
      \<and> pending (snd (networkFirst e req st)) = pending st @ [(DYNAMIC_CACHE, url req, r)]
      \<and> (pending st = [] \<longrightarrow>
           caches (settle_puts (snd (networkFirst e req st)))
             = cache_put DYNAMIC_CACHE (url req) r (caches_open DYNAMIC_CACHE (caches st)))
      \<and> (pending st = []
           \<and> (\<forall>(n, g) \<in> set (caches st). n \<noteq> DYNAMIC_CACHE \<longrightarrow> g (url req) = None) \<longrightarrow>
           caches_match (caches (settle_puts (snd (networkFirst e req st)))) (url req) = Some r)"
  proof (intro impI)
    assume h: "net e (url req) = Responds t r \<and> ok r"
    have run: "networkFirst e req st = (r, put_cache DYNAMIC_CACHE (url req) r ?opened)"
      using h by (simp add: networkFirst_def settled_def)
    have settled_caches: "caches (settle_puts (put_cache DYNAMIC_CACHE (url req) r ?opened))
        = cache_put DYNAMIC_CACHE (url req) r
            (fold apply_put (pending st) (caches_open DYNAMIC_CACHE (caches st)))"
      unfolding settle_after_put opened ..
    show "fst (networkFirst e req st) = r
      \<and> caches (snd (networkFirst e req st)) = caches_open DYNAMIC_CACHE (caches st)
      \<and> pending (snd (networkFirst e req st)) = pending st @ [(DYNAMIC_CACHE, url req, r)]
      \<and> (pending st = [] \<longrightarrow>
           caches (settle_puts (snd (networkFirst e req st)))
             = cache_put DYNAMIC_CACHE (url req) r (caches_open DYNAMIC_CACHE (caches st)))
      \<and> (pending st = []
           \<and> (\<forall>(n, g) \<in> set (caches st). n \<noteq> DYNAMIC_CACHE \<longrightarrow> g (url req) = None) \<longrightarrow>
           caches_match (caches (settle_puts (snd (networkFirst e req st)))) (url req) = Some r)"
      unfolding run fst_conv snd_conv settled_caches
      using opened by (simp add: put_cache_def record_call_def caches_match_put_open)
  qed
  have b: "(\<forall>r'. settled (net e (url req)) = Some r' \<longrightarrow> \<not> ok r') \<longrightarrow>
        caches (snd (networkFirst e req st)) = caches st
        \<and> pending (snd (networkFirst e req st)) = pending st"
    by (auto simp: networkFirst_def record_call_def Let_def split: option.splits)
  have settled_any: "pending st = [] \<Longrightarrow>
      caches (settle_puts (snd (networkFirst e req st))) = caches st
      \<or> (\<exists>r. caches (settle_puts (snd (networkFirst e req st)))
             = cache_put DYNAMIC_CACHE (url req) r (caches_open DYNAMIC_CACHE (caches st)))"
    by (auto simp: networkFirst_def record_call_def Let_def settle_puts_def put_cache_def
        open_cache_def apply_put_def split: option.splits)
  have c: "pending st = [] \<and> k \<noteq> url req \<longrightarrow>
        caches_match (caches (settle_puts (snd (networkFirst e req st)))) k
          = caches_match (caches st) k"
    using settled_any by (auto simp: caches_match_put_other caches_match_open)
  have d: "pending st = [] \<and> n \<noteq> DYNAMIC_CACHE \<longrightarrow>
        map_of (caches (settle_puts (snd (networkFirst e req st)))) n = map_of (caches st) n"
    using settled_any
    by (auto simp: map_of_cache_put map_of_caches_open split: option.splits)
  show ?thesis using a b c d by blast
qed

theorem networkFirst_round_trip_witness:
  "fst (networkFirst net_up image_request fresh) = page
   \<and> pending (snd (networkFirst net_up image_request fresh))
       = pending fresh @ [(DYNAMIC_CACHE, url image_request, page)]
   \<and> caches_match (caches (settle_puts (snd (networkFirst net_up image_request fresh))))
        (url image_request) = Some page
   \<and> caches (snd (networkFirst net_down image_request dynamic_only)) = caches dynamic_only
   \<and> caches_match (caches (settle_puts (snd (networkFirst net_up image_request fresh))))
        ''https://vivomas.cl/index.html''
       = caches_match (caches fresh) ''https://vivomas.cl/index.html''
   \<and> map_of (caches (settle_puts (snd (networkFirst net_up image_request static_holds_old))))
        STATIC_CACHE
       = map_of (caches static_holds_old) STATIC_CACHE"
proof -
  note at_up = networkFirst_round_trip
    [of net_up image_request 20 page fresh "''https://vivomas.cl/index.html''" STATIC_CACHE]
  note at_down = networkFirst_round_trip
    [of net_down image_request 20 page dynamic_only "''https://vivomas.cl/index.html''"
        STATIC_CACHE]
  note at_other = networkFirst_round_trip
    [of net_up image_request 20 page static_holds_old "''https://vivomas.cl/index.html''"
        STATIC_CACHE]
  have up: "net net_up (url image_request) = Responds 20 page \<and> ok page"
    by (simp add: net_up_def page_ok)
  have idle: "pending fresh = []" "pending static_holds_old = []"
    by (simp_all add: fresh_def static_holds_old_def)
  have alone: "\<forall>(n, g) \<in> set (caches fresh). n \<noteq> DYNAMIC_CACHE \<longrightarrow> g (url image_request) = None"
    by (simp add: fresh_def)
  have down: "\<forall>r'. settled (net net_down (url image_request)) = Some r' \<longrightarrow> \<not> ok r'"
    by (simp add: net_down_def settled_def)
  have other_key: "''https://vivomas.cl/index.html'' \<noteq> url image_request"
    by (simp add: image_request_def)
  have other_name: "STATIC_CACHE \<noteq> DYNAMIC_CACHE"
    by (simp add: STATIC_CACHE_def DYNAMIC_CACHE_def)
  have c1: "fst (networkFirst net_up image_request fresh) = page
   \<and> pending (snd (networkFirst net_up image_request fresh))
       = pending fresh @ [(DYNAMIC_CACHE, url image_request, page)]
   \<and> caches_match (caches (settle_puts (snd (networkFirst net_up image_request fresh))))
        (url image_request) = Some page"
    using conjunct1 [OF at_up] up alone idle by blast
  have c2: "caches (snd (networkFirst net_down image_request dynamic_only)) = caches dynamic_only"
    using conjunct1 [OF conjunct2 [OF at_down]] down by blast
  have c3: "caches_match (caches (settle_puts (snd (networkFirst net_up image_request fresh))))
        ''https://vivomas.cl/index.html''
       = caches_match (caches fresh) ''https://vivomas.cl/index.html''"
    using conjunct1 [OF conjunct2 [OF conjunct2 [OF at_up]]] idle other_key by blast
  have c4: "map_of (caches (settle_puts (snd (networkFirst net_up image_request static_holds_old))))
        STATIC_CACHE
       = map_of (caches static_holds_old) STATIC_CACHE"
    using conjunct2 [OF conjunct2 [OF conjunct2 [OF at_other]]] idle other_name by blast
  show ?thesis using c1 c2 c3 c4 by simp
qed

text \<open>
  The fetch answers 200 with \<open>page\<close>, which \<open>networkFirst\<close> returns. A lookup made at
  once, before the put has settled, finds nothing; and when the static generation holds
  an older copy under the same URL, the lookup returns that copy even after the put has
  settled.
\<close>

theorem networkFirst_round_trip_counterexample:
  "net net_up (url image_request) = Responds 20 page
   \<and> ok page
   \<and> fst (networkFirst net_up image_request fresh) = page
   \<and> caches_match (caches (snd (networkFirst net_up image_request fresh))) (url image_request)
       = None
   \<and> fst (networkFirst net_up image_request static_holds_old) = page
   \<and> caches_match (caches (settle_puts (snd (networkFirst net_up image_request static_holds_old))))
        (url image_request) = Some old_copy
   \<and> old_copy \<noteq> page"
  by (simp add: networkFirst_def settled_def net_up_def ok_def Let_def image_request_def fresh_def
      static_holds_old_def put_cache_def open_cache_def record_call_def caches_open_def
      settle_puts_def apply_put_def cache_put_def STATIC_CACHE_def DYNAMIC_CACHE_def
      old_copy_def page_def)

end
